theory Spec2Isabelle
  imports
    Complex_Main
    "HOL-Library.AList"
    "HOL-Library.Char_ord"
    "HOL-Library.List_Lexorder"
    "HOL-Library.Multiset"
begin

section \<open>The indexed user store of GearUp-Sports\<close>

text \<open>
  The class \<^verbatim>\<open>EnhancedUserDatabase\<close> keeps four JavaScript maps in memory: the primary
  table \<^verbatim>\<open>users\<close>, the \<^verbatim>\<open>emailIndex\<close>, the \<^verbatim>\<open>roleIndex\<close> and the
  \<^verbatim>\<open>nameIndex\<close>. A JavaScript \<^verbatim>\<open>Map\<close> iterates in insertion order and \<^verbatim>\<open>set\<close> on a
  present key keeps its position, so a map is an association list changed by
  \<open>AList.update\<close> and \<open>AList.delete\<close>; a JavaScript \<^verbatim>\<open>Set\<close> is a list without
  repetition that grows at its end.

  Strings are \<open>string\<close>; case folding and trimming are those of ASCII. Time stamps
  (\<^verbatim>\<open>Date.now()\<close>, and the ISO strings made from it) are milliseconds as \<open>int\<close>, amounts
  of money are exact rationals. The generated identifier and the clock are inputs of the
  operations that read them.

  Every mutating method ends with \<^verbatim>\<open>saveToStorage()\<close>, which writes two blobs to the
  host store and leaves the four maps as they are when the write succeeds. When the write
  fails it calls \<^verbatim>\<open>cleanupOldData\<close>, which is a series of \<^verbatim>\<open>deleteUser\<close> calls; on the
  in-memory state that is the same as further delete operations following the method.
  The fields \<^verbatim>\<open>avatar\<close>, \<^verbatim>\<open>preferences\<close> and \<^verbatim>\<open>profile\<close> of a record are payload that
  no method of the store reads; they are left out.
\<close>

subsection \<open>Strings\<close>

definition toLowerCase_char :: "char \<Rightarrow> char" where
  "toLowerCase_char c =
     (let n = (of_char c :: nat) in if 65 \<le> n \<and> n \<le> 90 then char_of (n + 32) else c)"

definition toLowerCase :: "string \<Rightarrow> string" where
  "toLowerCase s = map toLowerCase_char s"

definition is_space :: "char \<Rightarrow> bool" where
  "is_space c \<longleftrightarrow> (of_char c :: nat) \<in> {9, 10, 11, 12, 13, 32}"

definition trim :: "string \<Rightarrow> string" where
  "trim s = rev (dropWhile is_space (rev (dropWhile is_space s)))"

text \<open>\<^verbatim>\<open>s.split(sep)\<close> for a separator of one character: never the empty list.\<close>

fun split :: "char \<Rightarrow> string \<Rightarrow> string list" where
  "split sep [] = [[]]"
| "split sep (c # cs) =
     (if c = sep then [] # split sep cs
      else (case split sep cs of [] \<Rightarrow> [[c]] | w # ws \<Rightarrow> (c # w) # ws))"

definition startsWith :: "string \<Rightarrow> string \<Rightarrow> bool" where
  "startsWith s p \<longleftrightarrow> take (length p) s = p"

text \<open>\<^verbatim>\<open>s.includes(t)\<close>: \<open>t\<close> occurs in \<open>s\<close> as a contiguous substring.\<close>

fun str_includes :: "string \<Rightarrow> string \<Rightarrow> bool" where
  "str_includes [] t \<longleftrightarrow> t = []"
| "str_includes (c # cs) t \<longleftrightarrow> startsWith (c # cs) t \<or> str_includes cs t"

text \<open>\<^verbatim>\<open>s.replace(/"/g, '')\<close>\<close>

definition strip_quotes :: "string \<Rightarrow> string" where
  "strip_quotes s = filter (\<lambda>c. c \<noteq> CHR 0x22) s"

text \<open>The decimal numeral of a natural number, as a template literal prints it.\<close>

definition digit_char :: "nat \<Rightarrow> char" where
  "digit_char d = char_of (48 + d)"

fun show_nat :: "nat \<Rightarrow> string" where
  "show_nat n = (if n < 10 then [digit_char n] else show_nat (n div 10) @ [digit_char (n mod 10)])"

declare show_nat.simps [simp del]

subsection \<open>Records\<close>

record stats =
  totalOrders :: int
  totalSpent :: rat
  loyaltyPoints :: int

text \<open>\<^verbatim>\<open>User\<close>, and \<^verbatim>\<open>User & { password: string }\<close> as the primary table stores it.\<close>

record user =
  user_id :: string
  email :: string
  name :: string
  createdAt :: int
  lastLogin :: "int option"
  isActive :: bool
  role :: string
  stats :: "stats option"

record stored_user = user +
  password :: string

text \<open>\<^verbatim>\<open>const { password, ...userWithoutPassword } = user\<close>\<close>

definition withoutPassword :: "stored_user \<Rightarrow> user" where
  "withoutPassword u = user.truncate u"

text \<open>The argument of \<^verbatim>\<open>createUser\<close>.\<close>

record user_data =
  ud_email :: string
  ud_name :: string
  ud_password :: string
  ud_role :: "string option"

text \<open>\<^verbatim>\<open>Partial<User>\<close>: a field is \<open>None\<close> when the object does not have it.\<close>

record user_updates =
  upd_id :: "string option"
  upd_email :: "string option"
  upd_name :: "string option"
  upd_createdAt :: "int option"
  upd_lastLogin :: "int option"
  upd_isActive :: "bool option"
  upd_role :: "string option"
  upd_stats :: "stats option"

record db =
  users :: "(string \<times> stored_user) list"
  emailIndex :: "(string \<times> string) list"
  roleIndex :: "(string \<times> string list) list"
  nameIndex :: "(string \<times> string list) list"

definition empty_db :: db where
  "empty_db = \<lparr>users = [], emailIndex = [], roleIndex = [], nameIndex = []\<rparr>"

datatype error = LimitReached | EmailExists

definition MAX_USERS :: nat where
  "MAX_USERS = 1000"

fun error_message :: "error \<Rightarrow> string" where
  "error_message LimitReached = ''Maximum user limit reached ('' @ show_nat MAX_USERS @ '')''"
| "error_message EmailExists = ''Email already exists''"

subsection \<open>Sets of identifiers and buckets\<close>

text \<open>\<^verbatim>\<open>Set.add\<close> and \<^verbatim>\<open>Set.delete\<close>\<close>

definition set_add :: "'a \<Rightarrow> 'a list \<Rightarrow> 'a list" where
  "set_add x xs = (if x \<in> set xs then xs else xs @ [x])"

definition set_delete :: "'a \<Rightarrow> 'a list \<Rightarrow> 'a list" where
  "set_delete x xs = removeAll x xs"

definition has :: "('k \<times> 'v) list \<Rightarrow> 'k \<Rightarrow> bool" where
  "has m k \<longleftrightarrow> map_of m k \<noteq> None"

text \<open>
  \<^verbatim>\<open>if (!index.has(key)) index.set(key, new Set()); index.get(key)!.add(userId);\<close>
  The set object lives in the map, so adding to it replaces the bucket in place.
\<close>

definition add_to_bucket ::
  "string \<Rightarrow> string \<Rightarrow> (string \<times> string list) list \<Rightarrow> (string \<times> string list) list" where
  "add_to_bucket key userId index =
     (case map_of index key of
        None \<Rightarrow> AList.update key [userId] index
      | Some bucket \<Rightarrow> AList.update key (set_add userId bucket) index)"

text \<open>\<^verbatim>\<open>const oldRoleSet = index.get(key); if (oldRoleSet) oldRoleSet.delete(userId);\<close>\<close>

definition remove_from_bucket ::
  "string \<Rightarrow> string \<Rightarrow> (string \<times> string list) list \<Rightarrow> (string \<times> string list) list" where
  "remove_from_bucket key userId index =
     (case map_of index key of
        None \<Rightarrow> index
      | Some bucket \<Rightarrow> AList.update key (set_delete userId bucket) index)"

text \<open>The body of the \<^verbatim>\<open>forEach\<close> over the name tokens in \<^verbatim>\<open>deleteUser\<close>.\<close>

definition remove_token ::
  "string \<Rightarrow> string \<Rightarrow> (string \<times> string list) list \<Rightarrow> (string \<times> string list) list" where
  "remove_token userId token index =
     (case map_of index token of
        None \<Rightarrow> index
      | Some nameSet \<Rightarrow>
          (let nameSet' = set_delete userId nameSet
           in if length nameSet' = 0 then AList.delete token index
              else AList.update token nameSet' index))"

definition nameTokens :: "string \<Rightarrow> string list" where
  "nameTokens n = split CHR '' '' (toLowerCase n)"

subsection \<open>Index maintenance\<close>

definition updateIndexes :: "string \<Rightarrow> stored_user \<Rightarrow> db \<Rightarrow> db" where
  "updateIndexes userId u s =
     s\<lparr>roleIndex := add_to_bucket (role u) userId (roleIndex s),
       nameIndex := fold (\<lambda>token. add_to_bucket token userId) (nameTokens (name u)) (nameIndex s)\<rparr>"

definition buildIndexes :: "db \<Rightarrow> db" where
  "buildIndexes s =
     fold (\<lambda>(userId, u) s'.
            s'\<lparr>roleIndex := add_to_bucket (role u) userId (roleIndex s'),
               nameIndex := fold (\<lambda>token. add_to_bucket token userId) (nameTokens (name u))
                              (nameIndex s')\<rparr>)
          (users s) (s\<lparr>roleIndex := [], nameIndex := []\<rparr>)"

subsection \<open>Create, read, update, delete\<close>

definition createUser :: "string \<Rightarrow> int \<Rightarrow> user_data \<Rightarrow> db \<Rightarrow> (error + user) \<times> db" where
  "createUser userId now userData s =
     (if length (users s) \<ge> MAX_USERS then (Inl LimitReached, s)
      else
        let u = \<lparr>user_id = userId,
                 email = trim (toLowerCase (ud_email userData)),
                 name = trim (ud_name userData),
                 createdAt = now,
                 lastLogin = None,
                 isActive = True,
                 role = (case ud_role userData of
                           None \<Rightarrow> ''user''
                         | Some r \<Rightarrow> if r = [] then ''user'' else r),
                 stats = Some \<lparr>totalOrders = 0, totalSpent = 0, loyaltyPoints = 0\<rparr>,
                 password = ud_password userData\<rparr>;
            s1 = s\<lparr>users := AList.update userId u (users s)\<rparr>;
            s2 = s1\<lparr>emailIndex := AList.update (email u) userId (emailIndex s1)\<rparr>;
            s3 = updateIndexes userId u s2
        in (Inr (withoutPassword u), s3))"

definition findUserByEmail :: "string \<Rightarrow> db \<Rightarrow> stored_user option" where
  "findUserByEmail e s =
     (case map_of (emailIndex s) (trim (toLowerCase e)) of
        None \<Rightarrow> None
      | Some userId \<Rightarrow> if userId = [] then None else map_of (users s) userId)"

definition findUserById :: "string \<Rightarrow> db \<Rightarrow> user option" where
  "findUserById i s = map_option withoutPassword (map_of (users s) i)"

text \<open>\<^verbatim>\<open>{ ...user, ...updates }\<close>\<close>

definition merge_field :: "'a option \<Rightarrow> 'a \<Rightarrow> 'a" where
  "merge_field new old = (case new of None \<Rightarrow> old | Some v \<Rightarrow> v)"

definition apply_updates :: "stored_user \<Rightarrow> user_updates \<Rightarrow> stored_user" where
  "apply_updates u updates =
     u\<lparr>user_id := merge_field (upd_id updates) (user_id u),
       email := merge_field (upd_email updates) (email u),
       name := merge_field (upd_name updates) (name u),
       createdAt := merge_field (upd_createdAt updates) (createdAt u),
       lastLogin := (case upd_lastLogin updates of None \<Rightarrow> lastLogin u | Some t \<Rightarrow> Some t),
       isActive := merge_field (upd_isActive updates) (isActive u),
       role := merge_field (upd_role updates) (role u),
       stats := (case upd_stats updates of None \<Rightarrow> stats u | Some st \<Rightarrow> Some st)\<rparr>"

text \<open>\<^verbatim>\<open>updates.email && updates.email !== user.email\<close>: the empty string is falsy.\<close>

definition changes :: "string option \<Rightarrow> string \<Rightarrow> bool" where
  "changes new old \<longleftrightarrow> (case new of None \<Rightarrow> False | Some v \<Rightarrow> v \<noteq> [] \<and> v \<noteq> old)"

definition updateUser :: "string \<Rightarrow> user_updates \<Rightarrow> db \<Rightarrow> (error + user option) \<times> db" where
  "updateUser i updates s =
     (case map_of (users s) i of
        None \<Rightarrow> (Inr None, s)
      | Some u \<Rightarrow>
          (let newEmail = trim (toLowerCase (merge_field (upd_email updates) []))
           in if changes (upd_email updates) (email u) \<and> has (emailIndex s) newEmail
              then (Inl EmailExists, s)
              else
                let s1 = (if changes (upd_email updates) (email u)
                          then s\<lparr>emailIndex :=
                                    AList.update newEmail i (AList.delete (email u) (emailIndex s))\<rparr>
                          else s);
                    s2 = (if changes (upd_role updates) (role u)
                          then s1\<lparr>roleIndex :=
                                     add_to_bucket (merge_field (upd_role updates) []) i
                                       (remove_from_bucket (role u) i (roleIndex s1))\<rparr>
                          else s1);
                    updatedUser = apply_updates u updates;
                    s3 = s2\<lparr>users := AList.update i updatedUser (users s2)\<rparr>
                in (Inr (Some (withoutPassword updatedUser)), s3)))"

definition updateUserRole :: "string \<Rightarrow> string \<Rightarrow> db \<Rightarrow> bool \<times> db" where
  "updateUserRole userId newRole s =
     (case map_of (users s) userId of
        None \<Rightarrow> (False, s)
      | Some u \<Rightarrow>
          (let s1 = s\<lparr>roleIndex := remove_from_bucket (role u) userId (roleIndex s)\<rparr>;
               u' = u\<lparr>role := newRole\<rparr>;
               s2 = s1\<lparr>roleIndex := add_to_bucket newRole userId (roleIndex s1)\<rparr>;
               s3 = s2\<lparr>users := AList.update userId u' (users s2)\<rparr>
           in (True, s3)))"

definition deactivateUser :: "string \<Rightarrow> db \<Rightarrow> bool \<times> db" where
  "deactivateUser userId s =
     (case map_of (users s) userId of
        None \<Rightarrow> (False, s)
      | Some u \<Rightarrow> (True, s\<lparr>users := AList.update userId (u\<lparr>isActive := False\<rparr>) (users s)\<rparr>))"

definition activateUser :: "string \<Rightarrow> db \<Rightarrow> bool \<times> db" where
  "activateUser userId s =
     (case map_of (users s) userId of
        None \<Rightarrow> (False, s)
      | Some u \<Rightarrow> (True, s\<lparr>users := AList.update userId (u\<lparr>isActive := True\<rparr>) (users s)\<rparr>))"

definition updateLastLogin :: "string \<Rightarrow> int \<Rightarrow> db \<Rightarrow> db" where
  "updateLastLogin i now s =
     (case map_of (users s) i of
        None \<Rightarrow> s
      | Some u \<Rightarrow> s\<lparr>users := AList.update i (u\<lparr>lastLogin := Some now\<rparr>) (users s)\<rparr>)"

definition deleteUser :: "string \<Rightarrow> db \<Rightarrow> bool \<times> db" where
  "deleteUser i s =
     (case map_of (users s) i of
        None \<Rightarrow> (False, s)
      | Some u \<Rightarrow>
          (let s1 = s\<lparr>emailIndex := AList.delete (email u) (emailIndex s)\<rparr>;
               s2 = s1\<lparr>roleIndex := remove_from_bucket (role u) i (roleIndex s1)\<rparr>;
               s3 = s2\<lparr>nameIndex := fold (remove_token i) (nameTokens (name u)) (nameIndex s2)\<rparr>;
               s4 = s3\<lparr>users := AList.delete i (users s3)\<rparr>
           in (True, s4)))"

definition getAllUsers :: "db \<Rightarrow> user list" where
  "getAllUsers s = map (\<lambda>(userId, u). withoutPassword u) (users s)"

definition getUserCount :: "db \<Rightarrow> nat" where
  "getUserCount s = length (users s)"

subsection \<open>Search and filtering\<close>

text \<open>The body of \<^verbatim>\<open>searchTerms.forEach\<close>: one term against both indexes.\<close>

definition search_term :: "db \<Rightarrow> string \<Rightarrow> string list \<Rightarrow> string list" where
  "search_term s term matchingUserIds =
     (let acc1 = fold (\<lambda>(token, userIds) a.
                        if str_includes token term then fold set_add userIds a else a)
                      (nameIndex s) matchingUserIds
      in fold (\<lambda>(e, userId) a. if str_includes e term then set_add userId a else a)
           (emailIndex s) acc1)"

definition searchUsers :: "string \<Rightarrow> db \<Rightarrow> user list" where
  "searchUsers query s =
     (let searchTerms = split CHR '' '' (toLowerCase query);
          matchingUserIds = fold (search_term s) searchTerms []
      in List.map_filter (\<lambda>i. findUserById i s) matchingUserIds)"

definition getUsersByRole :: "string \<Rightarrow> db \<Rightarrow> user list" where
  "getUsersByRole r s =
     (let userIds = (case map_of (roleIndex s) r of None \<Rightarrow> [] | Some b \<Rightarrow> b)
      in List.map_filter (\<lambda>i. findUserById i s) userIds)"

subsection \<open>Import\<close>

text \<open>
  One round of the loop of \<^verbatim>\<open>importUsers\<close>, for the line of index \<open>i\<close> (the header has
  index 0). \<open>gen i\<close> is the identifier and the clock that \<^verbatim>\<open>createUser\<close> would draw in
  that round. The \<^verbatim>\<open>catch\<close> turns the exception of \<^verbatim>\<open>createUser\<close> into a message.
\<close>

definition line_message :: "nat \<Rightarrow> string \<Rightarrow> string" where
  "line_message i msg = ''Line '' @ show_nat (i + 1) @ '': '' @ msg"

definition import_line ::
  "(nat \<Rightarrow> string \<times> int) \<Rightarrow> nat \<Rightarrow> string \<Rightarrow> db \<times> nat \<times> string list \<Rightarrow> db \<times> nat \<times> string list" where
  "import_line gen i line acc =
     (case acc of (s, imported, errors) \<Rightarrow>
        (let values = split CHR '','' line
         in if length values < 3 then (s, imported, errors)
            else
              let e = strip_quotes (values ! 2);
                  n = strip_quotes (values ! 1)
              in if e = [] \<or> n = []
                 then (s, imported, errors @ [line_message i ''Missing required fields''])
                 else if has (emailIndex s) e
                 then (s, imported, errors @ [line_message i (''Email '' @ e @ '' already exists'')])
                 else
                   (case createUser (fst (gen i)) (snd (gen i))
                           \<lparr>ud_email = e, ud_name = n, ud_password = ''imported123'',
                            ud_role = Some (if length values < 4 \<or> values ! 3 = []
                                            then ''user'' else values ! 3)\<rparr> s of
                      (Inl err, s') \<Rightarrow> (s', imported, errors @ [line_message i (error_message err)])
                    | (Inr u, s') \<Rightarrow> (s', imported + 1, errors))))"

definition importUsers ::
  "(nat \<Rightarrow> string \<times> int) \<Rightarrow> string \<Rightarrow> db \<Rightarrow> (nat \<times> string list) \<times> db" where
  "importUsers gen csvData s =
     (let lines = split CHR 0x0A csvData
      in case fold (\<lambda>i. import_line gen i (lines ! i)) [1..<length lines] (s, 0, []) of
           (s', imported, errors) \<Rightarrow> ((imported, errors), s'))"

subsection \<open>Statistics\<close>


text \<open>\<^verbatim>\<open>u.stats?.totalOrders || 0\<close> and \<^verbatim>\<open>u.stats?.totalSpent || 0\<close>\<close>

definition orders_of :: "user \<Rightarrow> int" where
  "orders_of u = (case stats u of None \<Rightarrow> 0 | Some st \<Rightarrow> totalOrders st)"

definition spent_of :: "user \<Rightarrow> rat" where
  "spent_of u = (case stats u of None \<Rightarrow> 0 | Some st \<Rightarrow> totalSpent st)"


subsection \<open>Backups\<close>

text \<open>
  The host key-value store, as far as the backups go: a backup entry holds the entries
  of the primary table, the time stamp and the count; other keys hold text.
\<close>

datatype item = BackupData "(string \<times> stored_user) list" nat nat | Text string

definition backup_prefix :: string where
  "backup_prefix = ''gearupsports_backup_''"

definition cleanupOldBackups :: "(string \<times> item) list \<Rightarrow> (string \<times> item) list" where
  "cleanupOldBackups localStorage =
     (let backupKeys = rev (sort (filter (\<lambda>key. startsWith key backup_prefix) (map fst localStorage)))
      in fold AList.delete (drop 3 backupKeys) localStorage)"

definition createBackup :: "nat \<Rightarrow> db \<Rightarrow> (string \<times> item) list \<Rightarrow> (string \<times> item) list" where
  "createBackup now s localStorage =
     (let backupData = BackupData (users s) now (length (users s));
          backupKey = backup_prefix @ show_nat now
      in cleanupOldBackups (AList.update backupKey backupData localStorage))"

subsection \<open>Sequences of operations\<close>

datatype op =
    Create string int user_data
  | Update string user_updates
  | Delete string
  | UpdateRole string string
  | Deactivate string
  | Activate string
  | UpdateLastLogin string int

fun step :: "op \<Rightarrow> db \<Rightarrow> db" where
  "step (Create userId now userData) s = snd (createUser userId now userData s)"
| "step (Update i updates) s = snd (updateUser i updates s)"
| "step (Delete i) s = snd (deleteUser i s)"
| "step (UpdateRole i r) s = snd (updateUserRole i r s)"
| "step (Deactivate i) s = snd (deactivateUser i s)"
| "step (Activate i) s = snd (activateUser i s)"
| "step (UpdateLastLogin i now) s = updateLastLogin i now s"

definition run :: "op list \<Rightarrow> db \<Rightarrow> db" where
  "run ops s = fold step ops s"

subsection \<open>Example stores\<close>

definition demo_data :: "string \<Rightarrow> string \<Rightarrow> user_data" where
  "demo_data e n = \<lparr>ud_email = e, ud_name = n, ud_password = ''secret'', ud_role = None\<rparr>"


definition demo_user :: stored_user where
  "demo_user = \<lparr>user_id = ''u'', email = ''u@x.com'', name = ''U'', createdAt = 0,
     lastLogin = None, isActive = True, role = ''user'', stats = None, password = ''secret''\<rparr>"

definition full_db :: db where
  "full_db = empty_db\<lparr>users := map (\<lambda>k. (show_nat k, demo_user)) [0..<1000]\<rparr>"



subsection \<open>The spec's average order value\<close>






subsection \<open>What the indexes hold\<close>

text \<open>The identifiers that \<^verbatim>\<open>index.get(key)\<close> holds; none when the key is absent.\<close>

definition bucket :: "(string \<times> string list) list \<Rightarrow> string \<Rightarrow> string set" where
  "bucket index key = (case map_of index key of None \<Rightarrow> {} | Some b \<Rightarrow> set b)"

text \<open>
  A search term matches an identifier when the identifier is in the bucket of a name token
  that contains the term, or is the value of an email key that contains the term.
\<close>

definition term_matches :: "db \<Rightarrow> string \<Rightarrow> string \<Rightarrow> bool" where
  "term_matches s term i \<longleftrightarrow>
     (\<exists>(token, userIds) \<in> set (nameIndex s). str_includes token term \<and> i \<in> set userIds)
     \<or> (\<exists>(e, userId) \<in> set (emailIndex s). str_includes e term \<and> userId = i)"

text \<open>Every record of the primary table is in the bucket of some name token.\<close>

definition name_covered :: "db \<Rightarrow> bool" where
  "name_covered s \<longleftrightarrow> (\<forall>i. has (users s) i \<longrightarrow> (\<exists>token. i \<in> bucket (nameIndex s) token))"

text \<open>A JavaScript \<^verbatim>\<open>Map\<close> holds each key once.\<close>

definition keys_distinct :: "db \<Rightarrow> bool" where
  "keys_distinct s \<longleftrightarrow> distinct (map fst (users s)) \<and> distinct (map fst (emailIndex s))
     \<and> distinct (map fst (roleIndex s)) \<and> distinct (map fst (nameIndex s))"


subsection \<open>Invariants of the indexes\<close>










subsection \<open>Example imports\<close>

definition demo_gen :: "nat \<Rightarrow> string \<times> int" where
  "demo_gen i = (''imp'' @ show_nat i, 100)"

text \<open>A header and three rows; the second row has two fields only.\<close>

definition csv_short_row :: string where
  "csv_short_row = ''ID,Name,Email'' @ [CHR 0x0A] @ ''1,Ann,ann@x.com'' @ [CHR 0x0A]
     @ ''2,Bob'' @ [CHR 0x0A] @ ''3,Cy,cy@x.com''"

text \<open>A header and three rows; the second row has an empty email field.\<close>

definition csv_empty_email :: string where
  "csv_empty_email = ''ID,Name,Email'' @ [CHR 0x0A] @ ''1,Ann,ann@x.com'' @ [CHR 0x0A]
     @ ''2,Bob,'' @ [CHR 0x0A] @ ''3,Cy,cy@x.com''"

text \<open>The fields of a line, and the email and name that \<^verbatim>\<open>importUsers\<close> reads from it.\<close>

definition fields :: "string \<Rightarrow> string list" where
  "fields line = split CHR '','' line"

definition email_field :: "string \<Rightarrow> string" where
  "email_field line = strip_quotes (fields line ! 2)"

definition name_field :: "string \<Rightarrow> string" where
  "name_field line = strip_quotes (fields line ! 1)"

(*END-DEFINITIONS*)

section \<open>Properties\<close>

subsection \<open>Creation at the capacity ceiling\<close>

text \<open>
  C2. In a store that holds exactly 1000 records, \<^verbatim>\<open>createUser\<close> throws the
  capacity error before it touches anything: the result is the error and the store is
  the one it was given, so the primary table, the email index, the role index and the
  name-token index are unchanged.
\<close>

theorem createUser_at_capacity:
  assumes "getUserCount s = 1000"
  shows "createUser userId now userData s = (Inl LimitReached, s)"
  using assms by (simp add: createUser_def getUserCount_def MAX_USERS_def)

theorem createUser_at_capacity_witness:
  "getUserCount full_db = 1000 \<and>
   createUser ''fresh'' 0 (demo_data ''new@x.com'' ''New'') full_db = (Inl LimitReached, full_db)"
proof -
  have h: "getUserCount full_db = 1000"
    by (simp add: getUserCount_def full_db_def)
  show ?thesis using h createUser_at_capacity [OF h] by simp
qed

subsection \<open>Email conflict on update\<close>




subsection \<open>Basic facts\<close>


lemma has_iff_key: "has m k \<longleftrightarrow> k \<in> fst ` set m"
  by (simp add: has_def map_of_eq_None_iff)

lemma users_updateIndexes [simp]: "users (updateIndexes i u s) = users s"
  by (simp add: updateIndexes_def)

lemma emailIndex_updateIndexes [simp]: "emailIndex (updateIndexes i u s) = emailIndex s"
  by (simp add: updateIndexes_def)





lemma run_Nil [simp]: "run [] s = s" by (simp add: run_def)
lemma run_Cons [simp]: "run (x # xs) s = run xs (step x s)" by (simp add: run_def)
lemma run_append [simp]: "run (xs @ ys) s = run ys (run xs s)" by (simp add: run_def)

lemma orders_of_wp [simp]: "orders_of (withoutPassword u) = (case stats u of None \<Rightarrow> 0 | Some st \<Rightarrow> totalOrders st)"
  by (simp add: orders_of_def withoutPassword_def user.truncate_def)
lemma spent_of_wp [simp]: "spent_of (withoutPassword u) = (case stats u of None \<Rightarrow> 0 | Some st \<Rightarrow> totalSpent st)"
  by (simp add: spent_of_def withoutPassword_def user.truncate_def)
lemma createdAt_wp [simp]: "createdAt (withoutPassword u) = createdAt u"
  by (simp add: withoutPassword_def user.truncate_def)



subsection \<open>Statistics\<close>




subsection \<open>Substrings and search\<close>

lemma startsWith_iff: "startsWith s p \<longleftrightarrow> (\<exists>ss. s = p @ ss)"
  unfolding startsWith_def
  by (metis append_eq_conv_conj append_take_drop_id)

lemma str_includes_iff: "str_includes s t \<longleftrightarrow> (\<exists>ps ss. s = ps @ t @ ss)"
proof (induction s)
  case Nil
  then show ?case by simp
next
  case (Cons c cs)
  show ?case
  proof
    assume "str_includes (c # cs) t"
    then consider "startsWith (c # cs) t" | "str_includes cs t" by auto
    then show "\<exists>ps ss. c # cs = ps @ t @ ss"
    proof cases
      case 1
      then obtain ss where "c # cs = t @ ss" by (auto simp: startsWith_iff)
      then have "c # cs = [] @ t @ ss" by simp
      then show ?thesis by blast
    next
      case 2
      then obtain ps ss where "cs = ps @ t @ ss" using Cons.IH by blast
      then have "c # cs = (c # ps) @ t @ ss" by simp
      then show ?thesis by blast
    qed
  next
    assume "\<exists>ps ss. c # cs = ps @ t @ ss"
    then obtain ps ss where e: "c # cs = ps @ t @ ss" by blast
    show "str_includes (c # cs) t"
    proof (cases ps)
      case Nil
      then have "startsWith (c # cs) t" using e by (auto simp: startsWith_iff)
      then show ?thesis by simp
    next
      case (Cons p ps')
      then have "cs = ps' @ t @ ss" using e by simp
      then have "str_includes cs t" using Cons.IH by blast
      then show ?thesis by simp
    qed
  qed
qed

lemma str_includes_empty [simp]: "str_includes s []"
  by (induction s) (simp_all add: startsWith_def)

lemma set_set_add [simp]: "set (set_add x xs) = insert x (set xs)"
  by (auto simp: set_add_def)

lemma distinct_set_add [simp]: "distinct (set_add x xs) = distinct xs"
  by (auto simp: set_add_def)

lemma set_fold_set_add [simp]: "set (fold set_add xs a) = set xs \<union> set a"
  by (induction xs arbitrary: a) auto

lemma distinct_fold_set_add [simp]: "distinct (fold set_add xs a) = distinct a"
  by (induction xs arbitrary: a) auto

lemma set_fold_tokens:
  "set (fold (\<lambda>(token, userIds) a. if P token then fold set_add userIds a else a) index acc)
     = set acc \<union> {i. \<exists>(token, userIds) \<in> set index. P token \<and> i \<in> set userIds}"
  by (induction index arbitrary: acc) (auto split: if_splits)

lemma distinct_fold_tokens:
  "distinct (fold (\<lambda>(token, userIds) a. if P token then fold set_add userIds a else a) index acc)
     = distinct acc"
  by (induction index arbitrary: acc) (simp_all split: prod.splits)

lemma set_fold_emails:
  "set (fold (\<lambda>(e, userId) a. if P e then set_add userId a else a) index acc)
     = set acc \<union> {i. \<exists>(e, userId) \<in> set index. P e \<and> userId = i}"
  by (induction index arbitrary: acc) (auto split: if_splits)

lemma distinct_fold_emails:
  "distinct (fold (\<lambda>(e, userId) a. if P e then set_add userId a else a) index acc)
     = distinct acc"
  by (induction index arbitrary: acc) (simp_all split: prod.splits)

lemma set_search_term:
  "set (search_term s term acc) = set acc \<union> {i. term_matches s term i}"
  by (auto simp: search_term_def Let_def set_fold_emails set_fold_tokens term_matches_def)

lemma distinct_search_term: "distinct (search_term s term acc) = distinct acc"
  by (simp add: search_term_def Let_def distinct_fold_emails distinct_fold_tokens)


lemma distinct_fold_search_term:
  "distinct (fold (search_term s) terms acc) = distinct acc"
  by (induction terms arbitrary: acc) (simp_all add: distinct_search_term)






subsection \<open>Buckets\<close>

lemma bucket_add_to_bucket:
  "bucket (add_to_bucket k i index) k' = (if k' = k then insert i (bucket index k) else bucket index k')"
  by (simp add: bucket_def add_to_bucket_def update_conv' split: option.splits)


lemma removeAll_NilD: "removeAll i b = [] \<Longrightarrow> x \<in> set b \<Longrightarrow> x = i"
  by (induction b) (auto split: if_splits)

lemma bucket_remove_token:
  "bucket (remove_token i k index) k' = (if k' = k then bucket index k - {i} else bucket index k')"
  by (auto simp: bucket_def remove_token_def update_conv' delete_conv' set_delete_def Let_def
      split: option.splits dest: removeAll_NilD)

lemma bucket_fold_add:
  "bucket (fold (\<lambda>token. add_to_bucket token i) tokens index) k
     = (if k \<in> set tokens then insert i (bucket index k) else bucket index k)"
  by (induction tokens arbitrary: index) (auto simp: bucket_add_to_bucket)

lemma bucket_fold_remove:
  "bucket (fold (remove_token i) tokens index) k
     = (if k \<in> set tokens then bucket index k - {i} else bucket index k)"
  by (induction tokens arbitrary: index) (auto simp: bucket_remove_token)

lemma split_nonempty [simp]: "split sep s \<noteq> []"
  by (induction s) (auto split: list.splits)

lemma nameTokens_nonempty [simp]: "nameTokens n \<noteq> []"
  by (simp add: nameTokens_def)

lemma distinct_add_to_bucket:
  "distinct (map fst index) \<Longrightarrow> distinct (map fst (add_to_bucket k i index))"
  by (simp add: add_to_bucket_def distinct_update split: option.splits)

lemma distinct_remove_from_bucket:
  "distinct (map fst index) \<Longrightarrow> distinct (map fst (remove_from_bucket k i index))"
  by (simp add: remove_from_bucket_def distinct_update split: option.splits)

lemma distinct_remove_token:
  "distinct (map fst index) \<Longrightarrow> distinct (map fst (remove_token i k index))"
  by (simp add: remove_token_def distinct_update distinct_delete Let_def split: option.splits)

lemma distinct_fold_add:
  "distinct (map fst index) \<Longrightarrow> distinct (map fst (fold (\<lambda>token. add_to_bucket token i) tokens index))"
  by (induction tokens arbitrary: index) (simp_all add: distinct_add_to_bucket)

lemma distinct_fold_remove:
  "distinct (map fst index) \<Longrightarrow> distinct (map fst (fold (remove_token i) tokens index))"
  by (induction tokens arbitrary: index) (simp_all add: distinct_remove_token)

lemma keys_distinct_step: "keys_distinct s \<Longrightarrow> keys_distinct (step op s)"
  by (cases op)
     (auto simp: keys_distinct_def createUser_def updateUser_def deleteUser_def updateUserRole_def
        deactivateUser_def activateUser_def updateLastLogin_def updateIndexes_def Let_def
        distinct_update distinct_delete distinct_add_to_bucket distinct_remove_from_bucket
        distinct_fold_add distinct_fold_remove
        split: option.splits)

lemma keys_distinct_run: "keys_distinct s \<Longrightarrow> keys_distinct (run ops s)"
  by (induction ops arbitrary: s) (simp_all add: keys_distinct_step)

lemma has_update [simp]: "has (AList.update k v al) j \<longleftrightarrow> j = k \<or> has al j"
  by (simp add: has_def update_conv')

lemma has_delete [simp]: "has (AList.delete k al) j \<longleftrightarrow> j \<noteq> k \<and> has al j"
  by (simp add: has_def delete_conv')

lemma has_Some: "map_of al k = Some v \<Longrightarrow> has al k"
  by (simp add: has_def)

lemma name_covered_createUser:
  assumes "name_covered s"
  shows "name_covered (snd (createUser i t d s))"
proof (cases "MAX_USERS \<le> length (users s)")
  case True
  then show ?thesis using assms by (simp add: createUser_def)
next
  case False
  let ?ts = "nameTokens (trim (ud_name d))"
  let ?s' = "snd (createUser i t d s)"
  have n: "nameIndex ?s' = fold (\<lambda>token. add_to_bucket token i) ?ts (nameIndex s)"
    using False by (simp add: createUser_def Let_def updateIndexes_def)
  have u: "\<And>j. has (users ?s') j \<longleftrightarrow> j = i \<or> has (users s) j"
    using False by (simp add: createUser_def Let_def)
  show ?thesis unfolding name_covered_def
  proof (intro allI impI)
    fix j assume "has (users ?s') j"
    then consider "j = i" | "has (users s) j" using u by blast
    then show "\<exists>token. j \<in> bucket (nameIndex ?s') token"
    proof cases
      case 1
      have "hd ?ts \<in> set ?ts" by simp
      then have "j \<in> bucket (nameIndex ?s') (hd ?ts)"
        unfolding n bucket_fold_add using 1 by simp
      then show ?thesis ..
    next
      case 2
      then obtain token where "j \<in> bucket (nameIndex s) token"
        using assms by (auto simp: name_covered_def)
      then have "j \<in> bucket (nameIndex ?s') token"
        unfolding n bucket_fold_add by simp
      then show ?thesis ..
    qed
  qed
qed

lemma name_covered_deleteUser:
  assumes "name_covered s"
  shows "name_covered (snd (deleteUser i s))"
proof (cases "map_of (users s) i")
  case None
  then show ?thesis using assms by (simp add: deleteUser_def)
next
  case (Some u)
  let ?s' = "snd (deleteUser i s)"
  have n: "nameIndex ?s' = fold (remove_token i) (nameTokens (name u)) (nameIndex s)"
    using Some by (simp add: deleteUser_def Let_def)
  have u: "\<And>j. has (users ?s') j \<longleftrightarrow> j \<noteq> i \<and> has (users s) j"
    using Some by (simp add: deleteUser_def Let_def)
  show ?thesis unfolding name_covered_def
  proof (intro allI impI)
    fix j assume "has (users ?s') j"
    then have j: "j \<noteq> i" "has (users s) j" using u by auto
    then obtain token where "j \<in> bucket (nameIndex s) token"
      using assms by (auto simp: name_covered_def)
    then have "j \<in> bucket (nameIndex ?s') token"
      unfolding n bucket_fold_remove using j by simp
    then show "\<exists>token. j \<in> bucket (nameIndex ?s') token" ..
  qed
qed

lemma name_covered_step: "name_covered s \<Longrightarrow> name_covered (step op s)"
proof (cases op)
  case (Create i t d)
  assume "name_covered s"
  then show ?thesis unfolding Create by (simp add: name_covered_createUser)
next
  case (Update i upd)
  assume c: "name_covered s"
  show ?thesis using c unfolding Update
    by (auto simp: name_covered_def updateUser_def Let_def
        split: option.splits dest: has_Some)
next
  case (Delete i)
  assume "name_covered s"
  then show ?thesis unfolding Delete by (simp add: name_covered_deleteUser)
next
  case (UpdateRole i r)
  assume c: "name_covered s"
  show ?thesis using c unfolding UpdateRole
    by (auto simp: name_covered_def updateUserRole_def Let_def
        split: option.splits dest: has_Some)
next
  case (Deactivate i)
  assume c: "name_covered s"
  show ?thesis using c unfolding Deactivate
    by (auto simp: name_covered_def deactivateUser_def Let_def
        split: option.splits dest: has_Some)
next
  case (Activate i)
  assume c: "name_covered s"
  show ?thesis using c unfolding Activate
    by (auto simp: name_covered_def activateUser_def Let_def
        split: option.splits dest: has_Some)
next
  case (UpdateLastLogin i t)
  assume c: "name_covered s"
  show ?thesis using c unfolding UpdateLastLogin
    by (auto simp: name_covered_def updateLastLogin_def Let_def
        split: option.splits dest: has_Some)
qed

lemma name_covered_run: "name_covered s \<Longrightarrow> name_covered (run ops s)"
  by (induction ops arbitrary: s) (simp_all add: name_covered_step)


lemma buildIndexes_fold:
  "buildIndexes s = fold (\<lambda>(userId, u). updateIndexes userId u) (users s) (s\<lparr>roleIndex := [], nameIndex := []\<rparr>)"
proof -
  have "(\<lambda>(userId, u). updateIndexes userId u)
      = (\<lambda>(userId, u) s'.
            s'\<lparr>roleIndex := add_to_bucket (role u) userId (roleIndex s'),
               nameIndex := fold (\<lambda>token. add_to_bucket token userId) (nameTokens (name u))
                              (nameIndex s')\<rparr>)"
    by (auto simp: fun_eq_iff updateIndexes_def)
  then show ?thesis by (simp add: buildIndexes_def)
qed

lemma fold_updateIndexes:
  "users (fold (\<lambda>(userId, u). updateIndexes userId u) us s) = users s"
  "emailIndex (fold (\<lambda>(userId, u). updateIndexes userId u) us s) = emailIndex s"
  "bucket (roleIndex (fold (\<lambda>(userId, u). updateIndexes userId u) us s)) r
     = bucket (roleIndex s) r \<union> {i. \<exists>u. (i, u) \<in> set us \<and> role u = r}"
  "bucket (nameIndex (fold (\<lambda>(userId, u). updateIndexes userId u) us s)) k
     = bucket (nameIndex s) k \<union> {i. \<exists>u. (i, u) \<in> set us \<and> k \<in> set (nameTokens (name u))}"
  by (induction us arbitrary: s)
     (auto simp: updateIndexes_def bucket_add_to_bucket bucket_fold_add split: if_splits)

lemma fold_updateIndexes_distinct:
  "distinct (map fst (roleIndex s)) \<Longrightarrow> distinct (map fst (nameIndex s)) \<Longrightarrow>
   distinct (map fst (roleIndex (fold (\<lambda>(userId, u). updateIndexes userId u) us s)))
   \<and> distinct (map fst (nameIndex (fold (\<lambda>(userId, u). updateIndexes userId u) us s)))"
  by (induction us arbitrary: s)
     (auto simp: updateIndexes_def distinct_add_to_bucket distinct_fold_add)

lemma bucket_Nil [simp]: "bucket [] k = {}"
  by (simp add: bucket_def)

lemma name_covered_buildIndexes: "name_covered (buildIndexes s)"
proof -
  have "\<exists>token. i \<in> bucket (nameIndex (buildIndexes s)) token"
    if "has (users (buildIndexes s)) i" for i
  proof -
    from that obtain u where u: "(i, u) \<in> set (users s)"
      by (auto simp: buildIndexes_fold fold_updateIndexes has_def dest: map_of_SomeD)
    have "hd (nameTokens (name u)) \<in> set (nameTokens (name u))" by simp
    with u have "i \<in> bucket (nameIndex (buildIndexes s)) (hd (nameTokens (name u)))"
      by (auto simp: buildIndexes_fold fold_updateIndexes)
    then show ?thesis ..
  qed
  then show ?thesis by (simp add: name_covered_def)
qed

lemma keys_distinct_buildIndexes:
  "distinct (map fst (users s)) \<Longrightarrow> distinct (map fst (emailIndex s)) \<Longrightarrow> keys_distinct (buildIndexes s)"
  unfolding keys_distinct_def buildIndexes_fold fold_updateIndexes
  using fold_updateIndexes_distinct [of "s\<lparr>roleIndex := [], nameIndex := []\<rparr>" "users s"]
  by simp

lemma mset_delete_entry:
  "distinct (map fst al) \<Longrightarrow> map_of al k = Some v \<Longrightarrow> mset al = add_mset (k, v) (mset (AList.delete k al))"
proof (induction al)
  case Nil
  then show ?case by simp
next
  case (Cons p al)
  show ?case
  proof (cases "fst p = k")
    case True
    with Cons.prems have "p = (k, v)" "k \<notin> fst ` set al" by (auto simp: prod_eq_iff)
    then show ?thesis by simp
  next
    case False
    with Cons show ?thesis by (auto simp: prod_eq_iff)
  qed
qed

lemma map_filter_cong:
  "(\<And>x. x \<in> set xs \<Longrightarrow> f x = g x) \<Longrightarrow> List.map_filter f xs = List.map_filter g xs"
  by (induction xs) (auto split: option.splits)

lemma mset_map_filter_lookup:
  "distinct ids \<Longrightarrow> distinct (map fst al) \<Longrightarrow> fst ` set al \<subseteq> set ids \<Longrightarrow>
   mset (List.map_filter (\<lambda>i. map_option f (map_of al i)) ids) = mset (map (\<lambda>(k, v). f v) al)"
proof (induction ids arbitrary: al)
  case Nil
  then show ?case by (simp add: List.map_filter_simps)
next
  case (Cons i ids)
  show ?case
  proof (cases "map_of al i")
    case None
    then have "i \<notin> fst ` set al" by (simp add: map_of_eq_None_iff)
    with Cons.prems have "fst ` set al \<subseteq> set ids" by auto
    with Cons.IH [of al] Cons.prems None show ?thesis
      by simp
  next
    case (Some v)
    let ?al = "AList.delete i al"
    have d: "distinct (map fst ?al)" using Cons.prems by (simp add: distinct_delete)
    have sub: "fst ` set ?al \<subseteq> set ids"
      using Cons.prems by (auto simp: AList.delete_eq)
    have eq: "List.map_filter (\<lambda>j. map_option f (map_of al j)) ids
            = List.map_filter (\<lambda>j. map_option f (map_of ?al j)) ids"
      using Cons.prems by (intro map_filter_cong) (auto simp: delete_conv')
    have "mset (map (\<lambda>(k, v). f v) al) = image_mset (\<lambda>(k, v). f v) (mset al)" by simp
    also have "\<dots> = add_mset (f v) (image_mset (\<lambda>(k, v). f v) (mset ?al))"
      using mset_delete_entry [OF Cons.prems(2) Some] by simp
    finally have m: "mset (map (\<lambda>(k, v). f v) al) = add_mset (f v) (mset (map (\<lambda>(k, v). f v) ?al))"
      by simp
    from Cons.IH [OF _ d sub] Cons.prems(1) Some eq m show ?thesis
      by simp
  qed
qed


subsection \<open>Search\<close>



text \<open>
  C10. In every store that the constructor and the operations can produce (the constructor
  ends with \<^verbatim>\<open>buildIndexes\<close>; the empty store is \<open>buildIndexes empty_db\<close>), the empty query
  returns each record of the primary table once, without its password: the one term is the
  empty string, every name-token key contains it, and every record is in the bucket of some
  name token.
\<close>

theorem searchUsers_empty_query_returns_all:
  assumes "distinct (map fst (users s0))" and "distinct (map fst (emailIndex s0))"
  shows "mset (searchUsers [] (run ops (buildIndexes s0)))
           = mset (getAllUsers (run ops (buildIndexes s0)))"
proof -
  let ?s = "run ops (buildIndexes s0)"
  let ?ids = "fold (search_term ?s) [[]] []"
  have cov: "name_covered ?s"
    by (intro name_covered_run name_covered_buildIndexes)
  have dis: "distinct (map fst (users ?s))"
    using keys_distinct_run [OF keys_distinct_buildIndexes [OF assms], of ops]
    by (simp add: keys_distinct_def)
  have "fst ` set (users ?s) \<subseteq> set ?ids"
  proof
    fix i assume "i \<in> fst ` set (users ?s)"
    then have "has (users ?s) i" by (simp add: has_def map_of_eq_None_iff)
    with cov obtain token where "i \<in> bucket (nameIndex ?s) token"
      by (auto simp: name_covered_def)
    then obtain b where "map_of (nameIndex ?s) token = Some b" "i \<in> set b"
      by (auto simp: bucket_def split: option.splits)
    then have "(token, b) \<in> set (nameIndex ?s)" "i \<in> set b"
      by (auto dest: map_of_SomeD)
    then have "term_matches ?s [] i"
      unfolding term_matches_def by (intro disjI1 bexI [of _ "(token, b)"]) simp_all
    then show "i \<in> set ?ids" by (simp add: set_search_term)
  qed
  from mset_map_filter_lookup [OF _ dis this, of withoutPassword]
  have "mset (List.map_filter (\<lambda>i. findUserById i ?s) ?ids)
          = mset (map (\<lambda>(k, v). withoutPassword v) (users ?s))"
    by (simp add: distinct_search_term findUserById_def)
  moreover have "split CHR '' '' (toLowerCase []) = [[]]" by (simp add: toLowerCase_def)
  ultimately show ?thesis
    by (simp add: searchUsers_def Let_def getAllUsers_def)
qed

theorem searchUsers_empty_query_returns_all_witness:
  "distinct (map fst (users empty_db)) \<and> distinct (map fst (emailIndex empty_db))
   \<and> mset (searchUsers [] (run [Create ''u1'' 0 (demo_data ''ann@x.com'' ''Ann''), Delete ''u9'']
                               (buildIndexes empty_db)))
       = mset (getAllUsers (run [Create ''u1'' 0 (demo_data ''ann@x.com'' ''Ann''), Delete ''u9'']
                               (buildIndexes empty_db)))"
proof -
  have h: "distinct (map fst (users empty_db))" "distinct (map fst (emailIndex empty_db))"
    by (simp_all add: empty_db_def)
  from searchUsers_empty_query_returns_all [OF h] h show ?thesis by blast
qed

subsection \<open>The role index\<close>















subsection \<open>Normalizing an email\<close>

lemma toLowerCase_char_idem [simp]: "toLowerCase_char (toLowerCase_char c) = toLowerCase_char c"
  by (auto simp: toLowerCase_char_def Let_def)

lemma is_space_toLowerCase_char [simp]: "is_space (toLowerCase_char c) = is_space c"
  by (auto simp: toLowerCase_char_def is_space_def Let_def)

lemma toLowerCase_idem [simp]: "toLowerCase (toLowerCase s) = toLowerCase s"
  by (simp add: toLowerCase_def)

lemma toLowerCase_trim: "toLowerCase (trim s) = trim (toLowerCase s)"
  by (simp add: toLowerCase_def trim_def rev_map dropWhile_map comp_def)

lemma trim_idem [simp]: "trim (trim s) = trim s"
proof -
  define u where "u = dropWhile is_space s"
  define y where "y = rev (dropWhile is_space (rev u))"
  have y: "trim s = y" by (simp add: trim_def u_def y_def)
  have "y @ rev (takeWhile is_space (rev u))
          = rev (takeWhile is_space (rev u) @ dropWhile is_space (rev u))"
    by (simp only: y_def rev_append)
  also have "\<dots> = u"
    by (simp only: takeWhile_dropWhile_id rev_rev_ident)
  finally have pre: "u = y @ rev (takeWhile is_space (rev u))" by (rule sym)
  have 1: "dropWhile is_space y = y"
  proof (cases y)
    case Nil
    then show ?thesis by simp
  next
    case (Cons a ys)
    from pre Cons have "u = a # (ys @ rev (takeWhile is_space (rev u)))" by simp
    then have "u \<noteq> []" "hd u = a"
      by (metis list.discI, metis list.sel(1))
    then have "\<not> is_space a" unfolding u_def using hd_dropWhile by metis
    with Cons show ?thesis by simp
  qed
  have 2: "dropWhile is_space (rev y) = rev y"
    by (simp add: y_def)
  show ?thesis unfolding y by (simp add: trim_def 1 2)
qed

lemma normalize_idem [simp]:
  "trim (toLowerCase (trim (toLowerCase e))) = trim (toLowerCase e)"
  by (simp add: toLowerCase_trim)

subsection \<open>The email index\<close>
















subsection \<open>Import\<close>

lemma import_line_short:
  "length (fields line) < 3 \<Longrightarrow> import_line gen i line acc = acc"
  by (cases acc) (simp add: import_line_def fields_def)

lemma import_line_count:
  assumes "3 \<le> length (fields line)"
    and "import_line gen i line (s, n, es) = (s', n', es')"
  shows "n' + length es' = Suc (n + length es)"
  using assms
  by (auto simp: import_line_def fields_def Let_def split: if_splits prod.splits sum.splits)

lemma import_line_errors_mono:
  assumes "import_line gen i line (s, n, es) = (s', n', es')"
  shows "set es \<subseteq> set es'"
  using assms
  by (auto simp: import_line_def Let_def split: if_splits prod.splits sum.splits)

lemma emailIndex_createUser_mono:
  "has (emailIndex s) e \<Longrightarrow> has (emailIndex (snd (createUser i t d s))) e"
  by (simp add: createUser_def Let_def)

lemma import_line_index_mono:
  assumes "import_line gen i line (s, n, es) = (s', n', es')" and "has (emailIndex s) e"
  shows "has (emailIndex s') e"
proof (cases "3 \<le> length (fields line) \<and> email_field line \<noteq> [] \<and> name_field line \<noteq> []
              \<and> \<not> has (emailIndex s) (email_field line)")
  case True
  let ?d = "\<lparr>ud_email = email_field line, ud_name = name_field line, ud_password = ''imported123'',
             ud_role = Some (if length (fields line) < 4 \<or> fields line ! 3 = []
                             then ''user'' else fields line ! 3)\<rparr>"
  from True assms(1) have "s' = snd (createUser (fst (gen i)) (snd (gen i)) ?d s)"
    by (auto simp: import_line_def fields_def email_field_def name_field_def Let_def
          split: prod.splits sum.splits)
  then show ?thesis using assms(2) by (simp add: emailIndex_createUser_mono)
next
  case False
  with assms(1) have "s' = s"
    by (auto simp: import_line_def fields_def email_field_def name_field_def Let_def
          split: if_splits)
  then show ?thesis using assms(2) by simp
qed

lemma import_line_missing:
  assumes "3 \<le> length (fields line)" and "email_field line = [] \<or> name_field line = []"
    and "import_line gen i line (s, n, es) = (s', n', es')"
  shows "line_message i ''Missing required fields'' \<in> set es'"
  using assms
  by (auto simp: import_line_def fields_def email_field_def name_field_def Let_def)

lemma import_line_exists:
  assumes "3 \<le> length (fields line)" and "email_field line \<noteq> []" and "name_field line \<noteq> []"
    and "has (emailIndex s) (email_field line)"
    and "import_line gen i line (s, n, es) = (s', n', es')"
  shows "line_message i (''Email '' @ email_field line @ '' already exists'') \<in> set es'"
  using assms
  by (auto simp: import_line_def fields_def email_field_def name_field_def Let_def)

lemma import_fold_count:
  assumes "fold (\<lambda>i. import_line gen i (ls ! i)) is (s, n, es) = (s', n', es')"
  shows "n' + length es' = n + length es + length (filter (\<lambda>i. 3 \<le> length (fields (ls ! i))) is)"
  using assms
proof (induction "is" arbitrary: s n es)
  case Nil
  then show ?case by simp
next
  case (Cons i "is")
  obtain s1 n1 es1 where st: "import_line gen i (ls ! i) (s, n, es) = (s1, n1, es1)"
    by (cases "import_line gen i (ls ! i) (s, n, es)") auto
  with Cons.prems have r: "fold (\<lambda>i. import_line gen i (ls ! i)) is (s1, n1, es1) = (s', n', es')"
    by simp
  show ?case
  proof (cases "3 \<le> length (fields (ls ! i))")
    case True
    from import_line_count [OF True st] Cons.IH [OF r] True show ?thesis by simp
  next
    case False
    then have "import_line gen i (ls ! i) (s, n, es) = (s, n, es)"
      by (simp add: import_line_short)
    with st Cons.IH [OF r] False show ?thesis by simp
  qed
qed

lemma import_fold_errors_mono:
  assumes "fold (\<lambda>i. import_line gen i (ls ! i)) is (s, n, es) = (s', n', es')"
  shows "set es \<subseteq> set es'"
  using assms
proof (induction "is" arbitrary: s n es)
  case Nil
  then show ?case by simp
next
  case (Cons i "is")
  obtain s1 n1 es1 where st: "import_line gen i (ls ! i) (s, n, es) = (s1, n1, es1)"
    by (cases "import_line gen i (ls ! i) (s, n, es)") auto
  with Cons.prems have r: "fold (\<lambda>i. import_line gen i (ls ! i)) is (s1, n1, es1) = (s', n', es')"
    by simp
  from import_line_errors_mono [OF st] Cons.IH [OF r] show ?case by blast
qed

lemma import_fold_index_mono:
  assumes "fold (\<lambda>i. import_line gen i (ls ! i)) is (s, n, es) = (s', n', es')"
    and "has (emailIndex s) e"
  shows "has (emailIndex s') e"
  using assms
proof (induction "is" arbitrary: s n es)
  case Nil
  then show ?case by simp
next
  case (Cons i "is")
  obtain s1 n1 es1 where st: "import_line gen i (ls ! i) (s, n, es) = (s1, n1, es1)"
    by (cases "import_line gen i (ls ! i) (s, n, es)") auto
  with Cons.prems have r: "fold (\<lambda>i. import_line gen i (ls ! i)) is (s1, n1, es1) = (s', n', es')"
    by simp
  from import_line_index_mono [OF st Cons.prems(2)] have "has (emailIndex s1) e" .
  from Cons.IH [OF r this] show ?case .
qed

lemma import_fold_messages:
  assumes "fold (\<lambda>i. import_line gen i (ls ! i)) is (s, n, es) = (s', n', es')"
    and "i \<in> set is" and "3 \<le> length (fields (ls ! i))"
  shows "email_field (ls ! i) = [] \<or> name_field (ls ! i) = []
           \<Longrightarrow> line_message i ''Missing required fields'' \<in> set es'"
    and "email_field (ls ! i) \<noteq> [] \<Longrightarrow> name_field (ls ! i) \<noteq> []
           \<Longrightarrow> has (emailIndex s) (email_field (ls ! i))
           \<Longrightarrow> line_message i (''Email '' @ email_field (ls ! i) @ '' already exists'') \<in> set es'"
proof -
  from assms(2) obtain xs ys where sp: "is = xs @ i # ys" by (auto simp: in_set_conv_decomp)
  obtain s1 n1 es1 where 1: "fold (\<lambda>i. import_line gen i (ls ! i)) xs (s, n, es) = (s1, n1, es1)"
    by (cases "fold (\<lambda>i. import_line gen i (ls ! i)) xs (s, n, es)") auto
  obtain s2 n2 es2 where 2: "import_line gen i (ls ! i) (s1, n1, es1) = (s2, n2, es2)"
    by (cases "import_line gen i (ls ! i) (s1, n1, es1)") auto
  from assms(1) have 3: "fold (\<lambda>i. import_line gen i (ls ! i)) ys (s2, n2, es2) = (s', n', es')"
    by (simp add: sp 1 2)
  {
    assume "email_field (ls ! i) = [] \<or> name_field (ls ! i) = []"
    from import_line_missing [OF assms(3) this 2] import_fold_errors_mono [OF 3]
    show "line_message i ''Missing required fields'' \<in> set es'" by blast
  next
    assume a: "email_field (ls ! i) \<noteq> []" "name_field (ls ! i) \<noteq> []"
      "has (emailIndex s) (email_field (ls ! i))"
    from import_fold_index_mono [OF 1 a(3)] have "has (emailIndex s1) (email_field (ls ! i))" .
    from import_line_exists [OF assms(3) a(1,2) this 2] import_fold_errors_mono [OF 3]
    show "line_message i (''Email '' @ email_field (ls ! i) @ '' already exists'') \<in> set es'"
      by blast
  }
qed

text \<open>
  C6, as the code has it. \<^verbatim>\<open>importUsers\<close> always returns a count and a list of messages,
  and every line after the header with at least three comma-separated fields is either
  imported or answered by exactly one message: the count and the number of messages add up
  to the number of such lines, while a line with fewer than three fields is skipped without
  a message. A line with at least three fields whose email or name field is empty once the
  quotes are stripped gets the message "Line k: Missing required fields", and one whose
  email is a key of the email index gets "Line k: Email e already exists", where k is the
  position of the line in the text, counted from 1. In particular, a header followed by
  three rows, of which the second has an empty email field, gives 2 imported records and the
  one message "Line 3: Missing required fields" in the empty store.
\<close>

theorem importUsers_accounts_for_lines:
  "(\<forall>imported errors s'. importUsers gen csvData s = ((imported, errors), s') \<longrightarrow>
      imported + length errors
        = length (filter (\<lambda>i. 3 \<le> length (fields (split CHR 0x0A csvData ! i)))
                    [1..<length (split CHR 0x0A csvData)])
      \<and> (\<forall>i. 1 \<le> i \<and> i < length (split CHR 0x0A csvData)
             \<and> 3 \<le> length (fields (split CHR 0x0A csvData ! i)) \<longrightarrow>
           (email_field (split CHR 0x0A csvData ! i) = [] \<or> name_field (split CHR 0x0A csvData ! i) = []
              \<longrightarrow> line_message i ''Missing required fields'' \<in> set errors)
           \<and> (email_field (split CHR 0x0A csvData ! i) \<noteq> [] \<and> name_field (split CHR 0x0A csvData ! i) \<noteq> []
                \<and> has (emailIndex s) (email_field (split CHR 0x0A csvData ! i))
              \<longrightarrow> line_message i (''Email '' @ email_field (split CHR 0x0A csvData ! i) @ '' already exists'')
                    \<in> set errors)))
   \<and> fst (importUsers demo_gen csv_empty_email empty_db) = (2, [''Line 3: Missing required fields''])"
proof (intro conjI allI impI)
  fix imported errors s'
  assume r: "importUsers gen csvData s = ((imported, errors), s')"
  let ?ls = "split CHR 0x0A csvData"
  from r have f: "fold (\<lambda>i. import_line gen i (?ls ! i)) [1..<length ?ls] (s, 0, []) = (s', imported, errors)"
    by (auto simp: importUsers_def Let_def split: prod.splits)
  from import_fold_count [OF f]
  show "imported + length errors
        = length (filter (\<lambda>i. 3 \<le> length (fields (?ls ! i))) [1..<length ?ls])"
    by simp
  fix i
  assume i: "1 \<le> i \<and> i < length ?ls \<and> 3 \<le> length (fields (?ls ! i))"
  then have m: "i \<in> set [1..<length ?ls]" and l: "3 \<le> length (fields (?ls ! i))" by auto
  {
    assume "email_field (?ls ! i) = [] \<or> name_field (?ls ! i) = []"
    from import_fold_messages(1) [OF f m l this]
    show "line_message i ''Missing required fields'' \<in> set errors" .
  next
    assume "email_field (?ls ! i) \<noteq> [] \<and> name_field (?ls ! i) \<noteq> []
                \<and> has (emailIndex s) (email_field (?ls ! i))"
    then have a: "email_field (?ls ! i) \<noteq> []" "name_field (?ls ! i) \<noteq> []"
      "has (emailIndex s) (email_field (?ls ! i))" by auto
    from import_fold_messages(2) [OF f m l a]
    show "line_message i (''Email '' @ email_field (?ls ! i) @ '' already exists'') \<in> set errors" .
  }
next
  show "fst (importUsers demo_gen csv_empty_email empty_db) = (2, [''Line 3: Missing required fields''])"
    by code_simp
qed

theorem importUsers_accounts_for_lines_witness:
  "fst (importUsers demo_gen csv_empty_email empty_db) = (2, [''Line 3: Missing required fields''])
   \<and> 2 + length [''Line 3: Missing required fields'']
        = length (filter (\<lambda>i. 3 \<le> length (fields (split CHR 0x0A csv_empty_email ! i)))
                    [1..<length (split CHR 0x0A csv_empty_email)])
   \<and> line_message 2 ''Missing required fields'' \<in> set [''Line 3: Missing required fields'']"
proof -
  obtain s' where r: "importUsers demo_gen csv_empty_email empty_db
                        = ((2, [''Line 3: Missing required fields'']), s')"
    using importUsers_accounts_for_lines [THEN conjunct2]
    by (cases "importUsers demo_gen csv_empty_email empty_db") auto
  have i: "1 \<le> (2::nat) \<and> 2 < length (split CHR 0x0A csv_empty_email)
           \<and> 3 \<le> length (fields (split CHR 0x0A csv_empty_email ! 2))"
    by code_simp
  have e: "email_field (split CHR 0x0A csv_empty_email ! 2) = []
            \<or> name_field (split CHR 0x0A csv_empty_email ! 2) = []"
    by code_simp
  from importUsers_accounts_for_lines [THEN conjunct1, rule_format, OF r]
  have "2 + length [''Line 3: Missing required fields'']
        = length (filter (\<lambda>i. 3 \<le> length (fields (split CHR 0x0A csv_empty_email ! i)))
                    [1..<length (split CHR 0x0A csv_empty_email)])"
    and "\<forall>i. 1 \<le> i \<and> i < length (split CHR 0x0A csv_empty_email)
             \<and> 3 \<le> length (fields (split CHR 0x0A csv_empty_email ! i)) \<longrightarrow>
           (email_field (split CHR 0x0A csv_empty_email ! i) = []
              \<or> name_field (split CHR 0x0A csv_empty_email ! i) = []
              \<longrightarrow> line_message i ''Missing required fields'' \<in> set [''Line 3: Missing required fields''])"
    by blast+
  with i e r show ?thesis by auto
qed

text \<open>
  The claim as stated fails for a row that lacks the email field altogether: the guard
  \<^verbatim>\<open>if (values.length < 3) continue\<close> skips it without a message, so the import of a
  header and three rows of which one is \<^verbatim>\<open>2,Bob\<close> reports 2 imported records and no
  message at all.
\<close>

theorem importUsers_short_row_no_message:
  "fst (importUsers demo_gen csv_short_row empty_db) = (2, [])"
  by code_simp

end
